theory Spec2Isabelle
  imports Main "HOL-Library.Word"
begin

section \<open>Data model of tree.cpp\<close>

text \<open>
  The C++ type \<open>int\<close> is a 32-bit two's complement integer: identifiers, question ids and
  the balance score are values of \<open>32 word\<close>, read as signed (\<open>sint\<close>, \<open><s\<close>).
  A \<open>std::set<int>\<close> is a set of such words, so it is finite and holds at most \<open>2 ^ 32\<close>
  elements. A \<open>Question *\<close> is an address; the objects behind the addresses of the question
  pool are given by a heap \<open>H\<close>, which \<open>buildTree\<close> only reads. Every pointer of a pool
  comes from a \<open>new\<close> of \<open>readQuestionsFromCSV\<close>, so the heap has an object at every
  address it is asked for.
\<close>

type_synonym int32 = "32 word"

type_synonym ptr = nat

datatype Character = Character (char_id: int32) (name: string) (image_path: string)

text \<open>
  \<open>class Question\<close>: the two child pointers are \<open>nullptr\<close> (\<open>None\<close>) until assigned. The
  tree that \<open>buildTree\<close> returns consists of freshly allocated objects that nothing else
  points to, so the children are held by value.
\<close>

datatype Question =
  Question (q_id: int32) (q_text: string) (positive_ids: "int32 set") (negative_ids: "int32 set")
    (left: "Question option") (right: "Question option")

text \<open>The field \<open>text\<close> of the source is \<open>q_text\<close> here.\<close>

text \<open>The constructor \<open>Question(id, txt, pos_ids, neg_ids)\<close>: both children default to \<open>nullptr\<close>.\<close>

definition new_Question :: "int32 \<Rightarrow> string \<Rightarrow> int32 set \<Rightarrow> int32 set \<Rightarrow> Question" where
  "new_Question i txt pos_ids neg_ids = Question i txt pos_ids neg_ids None None"

type_synonym heap = "ptr \<Rightarrow> Question"

section \<open>Decimal strings and the first element of a set\<close>

definition digit_char :: "nat \<Rightarrow> char" where
  "digit_char d = ''0123456789'' ! d"

function digits :: "nat \<Rightarrow> string" where
  "digits n = (if n < 10 then [digit_char n] else digits (n div 10) @ [digit_char (n mod 10)])"
  by pat_completeness auto
termination
  by (relation "measure id") auto

text \<open>\<open>std::to_string(int)\<close>: the decimal digits, with a minus sign for a negative value.\<close>

definition to_string :: "int \<Rightarrow> string" where
  "to_string i = (if i < 0 then CHR ''-'' # digits (nat (- i)) else digits (nat i))"

text \<open>
  \<open>*s.begin()\<close> on a \<open>std::set<int>\<close>: its least element in the signed order. The source
  reads it from sets of size 1 only.
\<close>

definition set_begin :: "int32 set \<Rightarrow> int32" where
  "set_begin s = word_of_int (Min (sint ` s))"

section \<open>QuestionTree::buildTree\<close>

definition INT_MAX :: int32 where
  "INT_MAX = 2147483647"

text \<open>\<open>(int)s.size()\<close>: the size, truncated to 32 bits.\<close>

definition size_int :: "int32 set \<Rightarrow> int32" where
  "size_int s = word_of_nat (card s)"

text \<open>
  \<open>abs\<close> on \<open>int\<close>. Where the negation or the subtraction of the score overflows, the C++
  standard leaves the result open; the model wraps around, as the machine does. The sizes
  that reach the score stay far below that in the program, and the theorems on the score
  say so.
\<close>

definition abs_int :: "int32 \<Rightarrow> int32" where
  "abs_int x = (if x <s 0 then - x else x)"

text \<open>
  The body of the scoring loop up to the comparison: the two intersections with
  \<open>remaining_ids\<close> and \<open>abs((int)pos_ids.size() - (int)neg_ids.size())\<close>.
\<close>

definition difference :: "int32 set \<Rightarrow> Question \<Rightarrow> int32" where
  "difference remaining_ids q =
     (let pos_ids = remaining_ids \<inter> positive_ids q;
          neg_ids = remaining_ids \<inter> negative_ids q
      in abs_int (size_int pos_ids - size_int neg_ids))"

text \<open>
  The loop \<open>for (auto *q : questions)\<close> over the state \<open>(best_question, min_difference)\<close>;
  \<open>None\<close> is \<open>nullptr\<close>.
\<close>

fun best_loop :: "heap \<Rightarrow> int32 set \<Rightarrow> ptr list \<Rightarrow> ptr option \<times> int32 \<Rightarrow> ptr option \<times> int32" where
  "best_loop H remaining_ids [] st = st"
| "best_loop H remaining_ids (q # qs) (best_question, min_difference) =
     (if difference remaining_ids (H q) <s min_difference
      then best_loop H remaining_ids qs (Some q, difference remaining_ids (H q))
      else best_loop H remaining_ids qs (best_question, min_difference))"

definition select_best :: "heap \<Rightarrow> int32 set \<Rightarrow> ptr list \<Rightarrow> ptr option" where
  "select_best H remaining_ids questions = fst (best_loop H remaining_ids questions (None, INT_MAX))"

text \<open>The loop that copies every pointer other than \<open>best_question\<close>.\<close>

definition remaining_questions :: "ptr \<Rightarrow> ptr list \<Rightarrow> ptr list" where
  "remaining_questions best_question questions = filter (\<lambda>q. q \<noteq> best_question) questions"

lemma best_loop_mem:
  "best_loop H r qs (b, m) = (Some q, m') \<Longrightarrow> b = Some q \<or> q \<in> set qs"
  by (induction qs arbitrary: b m) (auto split: if_splits)

lemma select_best_mem: "select_best H r qs = Some q \<Longrightarrow> q \<in> set qs"
  unfolding select_best_def using best_loop_mem [of H r qs None INT_MAX q]
  by (cases "best_loop H r qs (None, INT_MAX)") auto

lemma length_remaining_questions:
  "q \<in> set qs \<Longrightarrow> length (remaining_questions q qs) < length qs"
  unfolding remaining_questions_def by (induction qs) (auto simp: less_Suc_eq_le)

function buildTree :: "heap \<Rightarrow> int32 set \<Rightarrow> ptr list \<Rightarrow> Question" where
  "buildTree H remaining_ids questions =
     (if card remaining_ids = 1
      then new_Question (- 1) (''Character identified: '' @ to_string (sint (set_begin remaining_ids))) {} {}
      else if questions = []
      then new_Question (- 1) ''No more questions. Unable to identify.'' {} {}
      else case select_best H remaining_ids questions of
        None \<Rightarrow> new_Question (- 1) ''Unable to further differentiate.'' {} {}
      | Some best_question \<Rightarrow>
          let pos_ids = remaining_ids \<inter> positive_ids (H best_question);
              neg_ids = remaining_ids \<inter> negative_ids (H best_question)
          in Question (q_id (H best_question)) (q_text (H best_question))
               (positive_ids (H best_question)) (negative_ids (H best_question))
               (Some (buildTree H pos_ids (remaining_questions best_question questions)))
               (Some (buildTree H neg_ids (remaining_questions best_question questions))))"
  by pat_completeness auto
termination
  by (relation "measure (\<lambda>(H, r, qs). length qs)")
     (auto dest!: select_best_mem intro: length_remaining_questions)

declare buildTree.simps [simp del]

section \<open>readCharacterByID\<close>

text \<open>
  The characters file, as \<open>readCharacterByID\<close> reads it: \<open>None\<close> when it cannot be opened,
  otherwise the lines after the header, each split at the commas into the id field, the
  name and the image path. The id field is what \<open>stoi\<close> makes of it: the \<open>int\<close> it
  converts to, or one of the two ways \<open>stoi\<close> throws, \<open>std::invalid_argument\<close> when the
  field does not start with a number and \<open>std::out_of_range\<close> when the number does not fit
  an \<open>int\<close>.
\<close>

datatype id_field = Id int32 | Not_a_number | Not_an_int

type_synonym characters_file = "(id_field \<times> string \<times> string) list option"

text \<open>
  The exceptions that leave \<open>readCharacterByID\<close>: the two \<open>runtime_error\<close>s it throws
  itself and the two of \<open>stoi\<close>, which it does not catch.
\<close>

datatype error = File_not_found | Character_not_found | Invalid_argument | Out_of_range

fun find_character :: "(id_field \<times> string \<times> string) list \<Rightarrow> int32 \<Rightarrow> error + Character" where
  "find_character [] search_id = Inl Character_not_found"
| "find_character ((Not_a_number, n, img) # rows) search_id = Inl Invalid_argument"
| "find_character ((Not_an_int, n, img) # rows) search_id = Inl Out_of_range"
| "find_character ((Id i, n, img) # rows) search_id =
     (if i = search_id then Inr (Character i n img) else find_character rows search_id)"

definition readCharacterByID :: "characters_file \<Rightarrow> int32 \<Rightarrow> error + Character" where
  "readCharacterByID file search_id =
     (case file of None \<Rightarrow> Inl File_not_found | Some rows \<Rightarrow> find_character rows search_id)"

section \<open>The session: class QuestionTree\<close>

record QuestionTree =
  root :: "Question option"
  characters :: "int32 set"

text \<open>The initializer of the member \<open>characters\<close>: the ids of all characters.\<close>

definition characters_init :: "int32 set" where
  "characters_init = {1, 2, 3, 4, 5, 6, 7, 8, 9, 10, 11, 12, 13, 14, 15, 16,
                      17, 18, 19, 20, 21, 22, 23, 24, 25, 26, 27, 28, 29,
                      30, 31, 32}"

text \<open>
  The constructor, given the heap and the pointers that \<open>readQuestionsFromCSV\<close> returns.
\<close>

definition new_QuestionTree :: "heap \<Rightarrow> ptr list \<Rightarrow> QuestionTree" where
  "new_QuestionTree H questions =
     \<lparr>root = Some (buildTree H characters_init questions), characters = characters_init\<rparr>"

text \<open>
  What a call of \<open>getCharacter\<close> ends with: a character, an exception of
  \<open>readCharacterByID\<close>, or the bare \<open>return;\<close> that hands no value back.
\<close>

datatype getCharacter_result = Returns_nothing | Returns Character | Throws error

definition lookup_result :: "error + Character \<Rightarrow> getCharacter_result" where
  "lookup_result r = (case r of Inl e \<Rightarrow> Throws e | Inr c \<Rightarrow> Returns c)"

definition getCharacter :: "characters_file \<Rightarrow> QuestionTree \<Rightarrow> getCharacter_result" where
  "getCharacter file s =
     (if card (characters s) > 1 then Returns_nothing
      else if card (characters s) < 1 then lookup_result (readCharacterByID file 0)
      else lookup_result (readCharacterByID file (set_begin (characters s))))"

text \<open>
  \<open>getQuestionText\<close> and \<open>setAnswer\<close> dereference \<open>root\<close>; on \<open>nullptr\<close> (the position
  after a leaf) there is no result: \<open>None\<close>.
\<close>

definition getQuestionText :: "QuestionTree \<Rightarrow> string option" where
  "getQuestionText s = map_option q_text (root s)"

definition setAnswer :: "bool \<Rightarrow> QuestionTree \<Rightarrow> QuestionTree option" where
  "setAnswer Answer s =
     (case root s of
        None \<Rightarrow> None
      | Some n \<Rightarrow>
          if Answer
          then Some (s\<lparr>characters := characters s - negative_ids n, root := left n\<rparr>)
          else Some (s\<lparr>characters := characters s - positive_ids n, root := right n\<rparr>))"

text \<open>A sequence of calls of \<open>setAnswer\<close>, one per answer.\<close>

fun setAnswers :: "bool list \<Rightarrow> QuestionTree \<Rightarrow> QuestionTree option" where
  "setAnswers [] s = Some s"
| "setAnswers (a # as) s = (case setAnswer a s of None \<Rightarrow> None | Some s' \<Rightarrow> setAnswers as s')"

section \<open>Measures of a built tree\<close>

text \<open>A node without children is a leaf; \<open>both_children\<close>: every other node has both.\<close>

fun both_children :: "Question \<Rightarrow> bool" where
  "both_children (Question i t p n l r) =
     (case l of
        None \<Rightarrow> r = None
      | Some a \<Rightarrow> (case r of None \<Rightarrow> False | Some b \<Rightarrow> both_children a \<and> both_children b))"

text \<open>The largest number of nodes with a child on a path from the root.\<close>

fun depth :: "Question \<Rightarrow> nat" where
  "depth (Question i t p n l r) =
     (if l = None \<and> r = None then 0
      else Suc (max (case l of None \<Rightarrow> 0 | Some a \<Rightarrow> depth a)
                    (case r of None \<Rightarrow> 0 | Some b \<Rightarrow> depth b)))"

fun leaves :: "Question \<Rightarrow> Question list" where
  "leaves (Question i t p n l r) =
     (if l = None \<and> r = None then [Question i t p n l r]
      else (case l of None \<Rightarrow> [] | Some a \<Rightarrow> leaves a) @ (case r of None \<Rightarrow> [] | Some b \<Rightarrow> leaves b))"

section \<open>The balance score, as the specification words it\<close>

text \<open>
  The absolute difference of the two intersection sizes, over the unbounded integers.
\<close>

definition balance_score :: "int32 set \<Rightarrow> Question \<Rightarrow> int" where
  "balance_score remaining q =
     \<bar>int (card (remaining \<inter> positive_ids q)) - int (card (remaining \<inter> negative_ids q))\<bar>"

section \<open>An example pool\<close>

text \<open>
  Two question objects at the addresses 100 and 200, over the identifiers 1, 2 and 3: the first
  separates 1 from 2 and 3, the second separates 2 from 1 and 3.
\<close>

definition example_heap :: heap where
  "example_heap p =
     (if p = 100 then new_Question 1 ''Is it the first?'' {1} {2, 3}
      else new_Question 2 ''Is it the second?'' {2} {1, 3})"

text \<open>The same two objects at other addresses, the second below the first.\<close>

definition moved_heap :: heap where
  "moved_heap p =
     (if p = 7 then new_Question 1 ''Is it the first?'' {1} {2, 3}
      else new_Question 2 ''Is it the second?'' {2} {1, 3})"

text \<open>A characters file with a row for the id 0 and a row for the id 1.\<close>

definition example_file :: characters_file where
  "example_file = Some [(Id 0, ''Unknown'', ''unknown.png''), (Id 1, ''Mickey'', ''mickey.png'')]"

text \<open>A session over the identifiers 1, 2 and 3, at the root of the tree built from them.\<close>

definition example_session :: QuestionTree where
  "example_session =
     \<lparr>root = Some (buildTree example_heap {1, 2, 3} [100, 200]), characters = {1, 2, 3}\<rparr>"

text \<open>
  The largest remaining set whose size is still an \<open>int\<close> without truncation: all positive
  values of \<open>int\<close>; and a heap whose every object is a question that holds of all of them.
\<close>

definition positive_ints :: "int32 set" where
  "positive_ints = {x. 0 <s x}"

definition any_heap :: heap where
  "any_heap p = new_Question 5 ''Is it anyone?'' positive_ints {}"

section \<open>Pools that hold the same records\<close>

text \<open>
  Two pools, each with its heap, hold the same records in the same order when the objects
  behind the pointers are equal position by position and two positions hold the same
  pointer in one pool exactly when they do in the other. The addresses themselves, and the
  heaps outside the pools, may differ.
\<close>

definition same_pool :: "heap \<Rightarrow> ptr list \<Rightarrow> heap \<Rightarrow> ptr list \<Rightarrow> bool" where
  "same_pool H qs H' qs' \<longleftrightarrow>
     map H qs = map H' qs' \<and>
     (\<forall>i < length qs. \<forall>j < length qs. (qs ! i = qs ! j) = (qs' ! i = qs' ! j))"

text \<open>The same relation on the pairs of the two pools, position by position.\<close>

definition paired :: "heap \<Rightarrow> heap \<Rightarrow> (ptr \<times> ptr) list \<Rightarrow> bool" where
  "paired H H' z \<longleftrightarrow>
     (\<forall>(q, q') \<in> set z. H q = H' q') \<and>
     (\<forall>(p, p') \<in> set z. \<forall>(q, q') \<in> set z. (p = q) = (p' = q'))"

section \<open>Arithmetic of the score\<close>

lemma sint_of_int_small:
  "- (2 ^ 31) \<le> k \<Longrightarrow> k < 2 ^ 31 \<Longrightarrow> sint (word_of_int k :: int32) = k"
  by (simp add: sint_sbintrunc' signed_take_bit_int_eq_self)

lemma sint_abs_int:
  assumes "- (2 ^ 31) < k" and "k < 2 ^ 31"
  shows "sint (abs_int (word_of_int k)) = \<bar>k\<bar>"
proof -
  have k: "sint (word_of_int k :: int32) = k"
    using assms by (simp add: sint_of_int_small)
  have "sint (- (word_of_int k :: int32)) = sint (word_of_int (- k) :: int32)"
    by simp
  also have "\<dots> = - k"
    using assms by (intro sint_of_int_small) auto
  finally have m: "sint (- (word_of_int k :: int32)) = - k" .
  show ?thesis
    using k m by (simp add: abs_int_def word_sless_alt)
qed

lemma sint_difference:
  assumes "card r < 2 ^ 31"
  shows "sint (difference r q) = balance_score r q"
proof -
  let ?a = "card (r \<inter> positive_ids q)" and ?b = "card (r \<inter> negative_ids q)"
  have "?a \<le> card r" "?b \<le> card r"
    by (simp_all add: card_mono)
  with assms have ab: "?a < 2 ^ 31" "?b < 2 ^ 31"
    by simp_all
  have eq: "(word_of_nat ?a :: int32) - word_of_nat ?b = word_of_int (int ?a - int ?b)"
    by simp
  have "- (2 ^ 31) < int ?a - int ?b" "int ?a - int ?b < 2 ^ 31"
    using ab by (simp_all add: algebra_simps)
  then show ?thesis
    unfolding difference_def Let_def size_int_def eq balance_score_def
    by (rule sint_abs_int)
qed

lemma balance_score_le: "balance_score r q \<le> int (card r)"
proof -
  have "card (r \<inter> positive_ids q) \<le> card r" "card (r \<inter> negative_ids q) \<le> card r"
    by (simp_all add: card_mono)
  then show ?thesis
    unfolding balance_score_def by linarith
qed

lemma difference_less_INT_MAX:
  assumes "card r < 2147483647"
  shows "difference r q <s INT_MAX"
proof -
  have "sint (difference r q) = balance_score r q"
    using assms by (intro sint_difference) simp
  moreover have "balance_score r q < 2147483647"
    using balance_score_le [of r q] assms by linarith
  ultimately show ?thesis
    by (simp add: word_sless_alt INT_MAX_def)
qed

section \<open>The scoring loop\<close>

lemma best_loop_first_min:
  "(\<forall>q \<in> set qs. \<not> difference r (H q) <s m) \<and> best_loop H r qs (b, m) = (b, m) \<or>
   (\<exists>pre q post. qs = pre @ q # post \<and>
      best_loop H r qs (b, m) = (Some q, difference r (H q)) \<and>
      difference r (H q) <s m \<and>
      (\<forall>x \<in> set pre. difference r (H q) <s difference r (H x)) \<and>
      (\<forall>x \<in> set post. \<not> difference r (H x) <s difference r (H q)))"
proof (induction qs arbitrary: b m)
  case Nil
  show ?case by simp
next
  case (Cons a qs)
  let ?d = "\<lambda>q. difference r (H q)"
  show ?case
  proof (cases "?d a <s m")
    case True
    from Cons.IH [of "?d a" "Some a"] show ?thesis
    proof (elim disjE conjE exE)
      assume "\<forall>q \<in> set qs. \<not> ?d q <s ?d a"
        and "best_loop H r qs (Some a, ?d a) = (Some a, ?d a)"
      with True have "a # qs = [] @ a # qs \<and>
          best_loop H r (a # qs) (b, m) = (Some a, ?d a) \<and> ?d a <s m \<and>
          (\<forall>x \<in> set []. ?d a <s ?d x) \<and> (\<forall>x \<in> set qs. \<not> ?d x <s ?d a)"
        by simp
      then show ?thesis by blast
    next
      fix pre q post
      assume "qs = pre @ q # post"
        and "best_loop H r qs (Some a, ?d a) = (Some q, ?d q)"
        and "?d q <s ?d a"
        and "\<forall>x \<in> set pre. ?d q <s ?d x"
        and "\<forall>x \<in> set post. \<not> ?d x <s ?d q"
      with True have "a # qs = (a # pre) @ q # post \<and>
          best_loop H r (a # qs) (b, m) = (Some q, ?d q) \<and> ?d q <s m \<and>
          (\<forall>x \<in> set (a # pre). ?d q <s ?d x) \<and> (\<forall>x \<in> set post. \<not> ?d x <s ?d q)"
        by (auto simp: word_sless_alt)
      then show ?thesis by blast
    qed
  next
    case False
    from Cons.IH [of m b] show ?thesis
    proof (elim disjE conjE exE)
      assume "\<forall>q \<in> set qs. \<not> ?d q <s m" and "best_loop H r qs (b, m) = (b, m)"
      with False show ?thesis by simp
    next
      fix pre q post
      assume "qs = pre @ q # post"
        and "best_loop H r qs (b, m) = (Some q, ?d q)"
        and "?d q <s m"
        and "\<forall>x \<in> set pre. ?d q <s ?d x"
        and "\<forall>x \<in> set post. \<not> ?d x <s ?d q"
      with False have "a # qs = (a # pre) @ q # post \<and>
          best_loop H r (a # qs) (b, m) = (Some q, ?d q) \<and> ?d q <s m \<and>
          (\<forall>x \<in> set (a # pre). ?d q <s ?d x) \<and> (\<forall>x \<in> set post. \<not> ?d x <s ?d q)"
        by (auto simp: word_sless_alt)
      then show ?thesis by blast
    qed
  qed
qed

lemma select_best_split:
  assumes "questions \<noteq> []" and "card r < 2147483647"
  shows "\<exists>pre best post. questions = pre @ best # post \<and>
      select_best H r questions = Some best \<and>
      (\<forall>x \<in> set pre. difference r (H best) <s difference r (H x)) \<and>
      (\<forall>x \<in> set post. \<not> difference r (H x) <s difference r (H best))"
proof -
  from assms(1) obtain a where "a \<in> set questions"
    by (cases questions) auto
  moreover have "difference r (H a) <s INT_MAX"
    using assms(2) by (rule difference_less_INT_MAX)
  ultimately have some: "\<not> (\<forall>q \<in> set questions. \<not> difference r (H q) <s INT_MAX)"
    by blast
  from best_loop_first_min [of questions r H INT_MAX None] show ?thesis
  proof (elim disjE conjE exE)
    assume "\<forall>q \<in> set questions. \<not> difference r (H q) <s INT_MAX"
    with some show ?thesis by simp
  next
    fix pre q post
    assume "questions = pre @ q # post"
      and "best_loop H r questions (None, INT_MAX) = (Some q, difference r (H q))"
      and "\<forall>x \<in> set pre. difference r (H q) <s difference r (H x)"
      and "\<forall>x \<in> set post. \<not> difference r (H x) <s difference r (H q)"
    then have "questions = pre @ q # post \<and> select_best H r questions = Some q \<and>
        (\<forall>x \<in> set pre. difference r (H q) <s difference r (H x)) \<and>
        (\<forall>x \<in> set post. \<not> difference r (H x) <s difference r (H q))"
      by (simp add: select_best_def)
    then show ?thesis by blast
  qed
qed

section \<open>Unfolding buildTree\<close>

lemma set_begin_single: "set_begin {x} = x"
  by (simp add: set_begin_def)

lemma buildTree_single:
  "buildTree H {x} questions =
     Question (- 1) (''Character identified: '' @ to_string (sint x)) {} {} None None"
  by (simp add: buildTree.simps new_Question_def set_begin_single)

lemma buildTree_no_questions:
  "card r \<noteq> 1 \<Longrightarrow> buildTree H r [] =
     Question (- 1) ''No more questions. Unable to identify.'' {} {} None None"
  by (simp add: buildTree.simps new_Question_def)

lemma buildTree_node:
  assumes "card r \<noteq> 1" and "questions \<noteq> []" and "select_best H r questions = Some best"
  shows "buildTree H r questions =
     Question (q_id (H best)) (q_text (H best)) (positive_ids (H best)) (negative_ids (H best))
       (Some (buildTree H (r \<inter> positive_ids (H best)) (remaining_questions best questions)))
       (Some (buildTree H (r \<inter> negative_ids (H best)) (remaining_questions best questions)))"
  using assms by (subst buildTree.simps) (simp add: Let_def)

lemma buildTree_unable:
  assumes "card r \<noteq> 1" and "questions \<noteq> []" and "select_best H r questions = None"
  shows "buildTree H r questions =
     Question (- 1) ''Unable to further differentiate.'' {} {} None None"
  using assms by (subst buildTree.simps) (simp add: new_Question_def)

section \<open>Properties of every built tree\<close>

lemma both_children_buildTree: "both_children (buildTree H r qs)"
proof (induction H r qs rule: buildTree.induct)
  case (1 H r qs)
  show ?case
  proof (cases "card r = 1")
    case True
    then show ?thesis
      by (subst buildTree.simps) (simp add: new_Question_def)
  next
    case c: False
    show ?thesis
    proof (cases "qs = []")
      case True
      with c show ?thesis
        by (simp add: buildTree_no_questions)
    next
      case q: False
      show ?thesis
      proof (cases "select_best H r qs")
        case None
        with c q show ?thesis
          by (simp add: buildTree_unable)
      next
        case (Some best)
        with c q "1.IH" show ?thesis
          by (simp add: buildTree_node)
      qed
    qed
  qed
qed

lemma leaves_buildTree:
  assumes "card r < 2147483647" and "t \<in> set (leaves (buildTree H r qs))"
  shows "(\<exists>x \<in> r. t = Question (- 1) (''Character identified: '' @ to_string (sint x)) {} {} None None) \<or>
     t = Question (- 1) ''No more questions. Unable to identify.'' {} {} None None"
  using assms
proof (induction H r qs rule: buildTree.induct)
  case (1 H r qs)
  show ?case
  proof (cases "card r = 1")
    case True
    then obtain x where "r = {x}"
      by (auto simp: card_1_singleton_iff)
    with "1.prems"(2) have
      "x \<in> r \<and> t = Question (- 1) (''Character identified: '' @ to_string (sint x)) {} {} None None"
      by (simp add: buildTree_single)
    then show ?thesis by blast
  next
    case c: False
    show ?thesis
    proof (cases "qs = []")
      case True
      with c "1.prems"(2) show ?thesis
        by (simp add: buildTree_no_questions)
    next
      case q: False
      from select_best_split [OF q "1.prems"(1), of H]
      obtain best where best: "select_best H r qs = Some best"
        by blast
      have "card (r \<inter> positive_ids (H best)) \<le> card r" "card (r \<inter> negative_ids (H best)) \<le> card r"
        by (simp_all add: card_mono)
      with "1.prems"(1) have small:
        "card (r \<inter> positive_ids (H best)) < 2147483647" "card (r \<inter> negative_ids (H best)) < 2147483647"
        by simp_all
      from "1.prems"(2) c q best have
        "t \<in> set (leaves (buildTree H (r \<inter> positive_ids (H best)) (remaining_questions best qs))) \<or>
         t \<in> set (leaves (buildTree H (r \<inter> negative_ids (H best)) (remaining_questions best qs)))"
        by (simp add: buildTree_node)
      then show ?thesis
      proof
        assume "t \<in> set (leaves (buildTree H (r \<inter> positive_ids (H best)) (remaining_questions best qs)))"
        with "1.IH"(1) [OF c q best refl refl small(1)] show ?thesis by blast
      next
        assume "t \<in> set (leaves (buildTree H (r \<inter> negative_ids (H best)) (remaining_questions best qs)))"
        with "1.IH"(2) [OF c q best refl refl small(2)] show ?thesis by blast
      qed
    qed
  qed
qed

lemma depth_buildTree: "depth (buildTree H r qs) \<le> length qs"
proof (induction H r qs rule: buildTree.induct)
  case (1 H r qs)
  show ?case
  proof (cases "card r = 1")
    case True
    then show ?thesis
      by (subst buildTree.simps) (simp add: new_Question_def)
  next
    case c: False
    show ?thesis
    proof (cases "qs = []")
      case True
      with c show ?thesis
        by (simp add: buildTree_no_questions)
    next
      case q: False
      show ?thesis
      proof (cases "select_best H r qs")
        case None
        with c q show ?thesis
          by (simp add: buildTree_unable)
      next
        case (Some best)
        have "length (remaining_questions best qs) < length qs"
          using Some by (intro length_remaining_questions select_best_mem)
        with "1.IH"(1) [OF c q Some refl refl] "1.IH"(2) [OF c q Some refl refl] c q Some
        show ?thesis
          by (simp add: buildTree_node)
      qed
    qed
  qed
qed

lemma filter_absent: "q \<notin> set qs \<Longrightarrow> filter (\<lambda>p. p \<noteq> q) qs = qs"
  by (induction qs) auto

lemma length_remaining_questions_distinct:
  "q \<in> set qs \<Longrightarrow> distinct qs \<Longrightarrow> length (remaining_questions q qs) = length qs - 1"
  unfolding remaining_questions_def
proof (induction qs)
  case Nil
  then show ?case by simp
next
  case (Cons a qs)
  show ?case
  proof (cases "a = q")
    case True
    with Cons.prems show ?thesis
      by (simp add: filter_absent)
  next
    case False
    with Cons have "length (filter (\<lambda>p. p \<noteq> q) qs) = length qs - 1" and "0 < length qs"
      by (auto simp: length_pos_if_in_set)
    with False show ?thesis by simp
  qed
qed

section \<open>Evaluating the example\<close>

lemma select_best_example_first: "select_best example_heap {1, 2, 3} [100, 200] = Some 100"
  by (simp add: select_best_def difference_def example_heap_def new_Question_def size_int_def
      abs_int_def INT_MAX_def word_sless_alt Let_def)

lemma select_best_example_second: "select_best example_heap {2, 3} [200] = Some 200"
  by (simp add: select_best_def difference_def example_heap_def new_Question_def size_int_def
      abs_int_def INT_MAX_def word_sless_alt Let_def)

lemma to_string_examples:
  "to_string 1 = ''1''" "to_string 2 = ''2''" "to_string 3 = ''3''" "to_string 7 = ''7''"
  by (simp_all add: to_string_def digit_char_def)

lemma example_heap_100:
  "example_heap 100 = Question 1 ''Is it the first?'' {1} {2, 3} None None"
  by (simp add: example_heap_def new_Question_def)

lemma example_heap_200:
  "example_heap 200 = Question 2 ''Is it the second?'' {2} {1, 3} None None"
  by (simp add: example_heap_def new_Question_def)

lemma buildTree_example_second:
  "buildTree example_heap {2, 3} [200] =
     Question 2 ''Is it the second?'' {2} {1, 3}
       (Some (Question (- 1) ''Character identified: 2'' {} {} None None))
       (Some (Question (- 1) ''Character identified: 3'' {} {} None None))"
proof -
  have "card {2, 3 :: int32} \<noteq> 1" and "[200 :: ptr] \<noteq> []"
    by simp_all
  from buildTree_node [OF this select_best_example_second] show ?thesis
    by (simp add: example_heap_200 remaining_questions_def buildTree_single to_string_examples)
qed

lemma card_characters_init: "card characters_init = 32"
  by (simp add: characters_init_def)

section \<open>The empty remaining set\<close>

lemma difference_empty: "difference {} q = 0"
  by (simp add: difference_def size_int_def abs_int_def)

lemma best_loop_empty_keep: "best_loop H {} qs (Some q, 0) = (Some q, 0)"
  by (induction qs) (simp_all add: difference_empty)

lemma select_best_empty: "select_best H {} (q # qs) = Some q"
  by (simp add: select_best_def difference_empty best_loop_empty_keep INT_MAX_def word_sless_alt)

lemma buildTree_example:
  "buildTree example_heap {1, 2, 3} [100, 200] =
     Question 1 ''Is it the first?'' {1} {2, 3}
       (Some (Question (- 1) ''Character identified: 1'' {} {} None None))
       (Some (Question 2 ''Is it the second?'' {2} {1, 3}
          (Some (Question (- 1) ''Character identified: 2'' {} {} None None))
          (Some (Question (- 1) ''Character identified: 3'' {} {} None None))))"
proof -
  have c: "card {1, 2, 3 :: int32} \<noteq> 1" and ne: "[100, 200] \<noteq> ([] :: ptr list)"
    by simp_all
  have f: "remaining_questions 100 [100, 200] = [200]"
    by (simp add: remaining_questions_def)
  have i: "{1, 2, 3} \<inter> {1} = {1 :: int32}" "{1, 2, 3} \<inter> {2, 3} = {2, 3 :: int32}"
    by auto
  from buildTree_node [OF c ne select_best_example_first] show ?thesis
    unfolding example_heap_100 Question.sel f i
    by (simp add: buildTree_single buildTree_example_second to_string_examples)
qed

lemma setAnswer_example_no:
  "setAnswer False example_session =
     Some \<lparr>root = Some (Question 2 ''Is it the second?'' {2} {1, 3}
          (Some (Question (- 1) ''Character identified: 2'' {} {} None None))
          (Some (Question (- 1) ''Character identified: 3'' {} {} None None))),
           characters = {2, 3}\<rparr>"
proof -
  have d: "{1, 2, 3} - {1} = {2, 3 :: int32}"
    by auto
  show ?thesis
    unfolding setAnswer_def example_session_def buildTree_example
    by (simp add: d)
qed

lemma setAnswers_example_no_yes:
  "setAnswers [False, True] example_session =
     Some \<lparr>root = Some (Question (- 1) ''Character identified: 2'' {} {} None None),
           characters = {2}\<rparr>"
proof -
  have d: "{2, 3} - {1, 3} = {2 :: int32}"
    by auto
  show ?thesis
    by (simp add: setAnswer_example_no) (simp add: setAnswer_def d)
qed

section \<open>Answers only remove candidates\<close>

lemma setAnswer_subset:
  "setAnswer a s = Some s' \<Longrightarrow> characters s' \<subseteq> characters s"
  by (auto simp: setAnswer_def split: option.splits if_splits)

lemma setAnswers_subset:
  "setAnswers as s = Some s' \<Longrightarrow> characters s' \<subseteq> characters s"
proof (induction as arbitrary: s)
  case Nil
  then show ?case by simp
next
  case (Cons a as)
  then obtain t where t: "setAnswer a s = Some t" and rest: "setAnswers as t = Some s'"
    by (auto split: option.splits)
  from Cons.IH [OF rest] setAnswer_subset [OF t] show ?case
    by blast
qed

section \<open>Building from pools that hold the same records\<close>

lemma paired_subset: "paired H H' z \<Longrightarrow> set y \<subseteq> set z \<Longrightarrow> paired H H' y"
  unfolding paired_def by blast

lemma same_pool_paired:
  assumes "same_pool H qs H' qs'"
  shows "length qs = length qs' \<and> paired H H' (zip qs qs')"
proof -
  from assms have m: "map H qs = map H' qs'"
    and a: "\<And>i j. i < length qs \<Longrightarrow> j < length qs \<Longrightarrow> (qs ! i = qs ! j) = (qs' ! i = qs' ! j)"
    by (simp_all add: same_pool_def)
  from m have len: "length qs = length qs'"
    by (rule map_eq_imp_length_eq)
  have rec: "H (qs ! i) = H' (qs' ! i)" if "i < length qs" for i
  proof -
    from that len have "map H qs ! i = H (qs ! i)" "map H' qs' ! i = H' (qs' ! i)"
      by simp_all
    with m show ?thesis by simp
  qed
  have "paired H H' (zip qs qs')"
    unfolding paired_def using len rec a
    by (auto simp: set_zip)
  with len show ?thesis by simp
qed

lemma best_loop_paired:
  assumes "length qs = length qs'"
    and "\<forall>(q, q') \<in> set (zip qs qs'). H q = H' q'"
    and "set (zip qs qs') \<subseteq> S"
    and "b = None \<and> b' = None \<or> (\<exists>q q'. b = Some q \<and> b' = Some q' \<and> (q, q') \<in> S)"
  shows "\<exists>c c' m'. best_loop H r qs (b, m) = (c, m') \<and> best_loop H' r qs' (b', m) = (c', m') \<and>
     (c = None \<and> c' = None \<or> (\<exists>q q'. c = Some q \<and> c' = Some q' \<and> (q, q') \<in> S))"
  using assms
proof (induction qs qs' arbitrary: b b' m rule: list_induct2)
  case Nil
  then show ?case by simp
next
  case (Cons x xs y ys)
  from Cons.prems have xy: "H x = H' y" and mem: "(x, y) \<in> S"
    and rest: "\<forall>(q, q') \<in> set (zip xs ys). H q = H' q'" "set (zip xs ys) \<subseteq> S"
    by auto
  show ?case
  proof (cases "difference r (H x) <s m")
    case True
    from mem have "Some x = None \<and> Some y = None \<or>
        (\<exists>q q'. Some x = Some q \<and> Some y = Some q' \<and> (q, q') \<in> S)"
      by simp
    from Cons.IH [OF rest this, of "difference r (H x)"] True xy show ?thesis
      by simp
  next
    case False
    from Cons.IH [OF rest Cons.prems(3), of m] False xy show ?thesis
      by simp
  qed
qed

lemma select_best_paired:
  assumes "length qs = length qs'" and "paired H H' (zip qs qs')"
  shows "select_best H r qs = None \<and> select_best H' r qs' = None \<or>
     (\<exists>q q'. select_best H r qs = Some q \<and> select_best H' r qs' = Some q' \<and>
        (q, q') \<in> set (zip qs qs'))"
proof -
  from assms(2) have "\<forall>(q, q') \<in> set (zip qs qs'). H q = H' q'"
    by (simp add: paired_def)
  from best_loop_paired [OF assms(1) this subset_refl, of None None r INT_MAX]
  show ?thesis
    unfolding select_best_def by auto
qed

lemma zip_filter_paired:
  assumes "length xs = length ys" and "\<forall>(a, b) \<in> set (zip xs ys). P a = Q b"
  shows "length (filter P xs) = length (filter Q ys) \<and>
     set (zip (filter P xs) (filter Q ys)) \<subseteq> set (zip xs ys)"
  using assms
proof (induction xs ys rule: list_induct2)
  case Nil
  then show ?case by simp
next
  case (Cons x xs y ys)
  then have "P x = Q y" and "\<forall>(a, b) \<in> set (zip xs ys). P a = Q b"
    by auto
  with Cons.IH show ?case
    by auto
qed

lemma remaining_questions_paired:
  assumes "length qs = length qs'" and "paired H H' (zip qs qs')"
    and "(q, q') \<in> set (zip qs qs')"
  shows "length (remaining_questions q qs) = length (remaining_questions q' qs') \<and>
     paired H H' (zip (remaining_questions q qs) (remaining_questions q' qs'))"
proof -
  from assms(2,3) have "\<forall>(a, b) \<in> set (zip qs qs'). (a \<noteq> q) = (b \<noteq> q')"
    unfolding paired_def by blast
  from zip_filter_paired [OF assms(1) this] paired_subset [OF assms(2)]
  show ?thesis
    unfolding remaining_questions_def by blast
qed

lemma buildTree_paired:
  assumes "length qs = length qs'" and "paired H H' (zip qs qs')"
  shows "buildTree H r qs = buildTree H' r qs'"
  using assms
proof (induction H r qs arbitrary: qs' rule: buildTree.induct)
  case (1 H r qs)
  show ?case
  proof (cases "card r = 1")
    case True
    then obtain x where "r = {x}"
      by (auto simp: card_1_singleton_iff)
    then show ?thesis
      by (simp add: buildTree_single)
  next
    case c: False
    show ?thesis
    proof (cases "qs = []")
      case True
      with "1.prems"(1) have "qs' = []" by simp
      with True c show ?thesis
        by (simp add: buildTree_no_questions)
    next
      case q: False
      with "1.prems"(1) have q': "qs' \<noteq> []" by auto
      from select_best_paired [OF "1.prems", of r] show ?thesis
      proof (elim disjE conjE exE)
        assume "select_best H r qs = None" and "select_best H' r qs' = None"
        with c q q' show ?thesis
          by (simp add: buildTree_unable)
      next
        fix b b'
        assume b: "select_best H r qs = Some b" and b': "select_best H' r qs' = Some b'"
          and mem: "(b, b') \<in> set (zip qs qs')"
        from "1.prems"(2) mem have rec: "H b = H' b'"
          unfolding paired_def by blast
        from remaining_questions_paired [OF "1.prems" mem]
        have len: "length (remaining_questions b qs) = length (remaining_questions b' qs')"
          and pr: "paired H H' (zip (remaining_questions b qs) (remaining_questions b' qs'))"
          by simp_all
        have "buildTree H (r \<inter> positive_ids (H b)) (remaining_questions b qs) =
            buildTree H' (r \<inter> positive_ids (H b)) (remaining_questions b' qs')"
          by (rule "1.IH"(1) [OF c q b refl refl len pr])
        moreover have "buildTree H (r \<inter> negative_ids (H b)) (remaining_questions b qs) =
            buildTree H' (r \<inter> negative_ids (H b)) (remaining_questions b' qs')"
          by (rule "1.IH"(2) [OF c q b refl refl len pr])
        ultimately show ?thesis
          using rec by (simp add: buildTree_node [OF c q b] buildTree_node [OF c q' b'])
      qed
    qed
  qed
qed

lemma moved_heap_7:
  "moved_heap 7 = Question 1 ''Is it the first?'' {1} {2, 3} None None"
  by (simp add: moved_heap_def new_Question_def)

lemma moved_heap_3:
  "moved_heap 3 = Question 2 ''Is it the second?'' {2} {1, 3} None None"
  by (simp add: moved_heap_def new_Question_def)

lemma same_pool_example: "same_pool example_heap [100, 200] moved_heap [7, 3]"
  unfolding same_pool_def
  by (auto simp: example_heap_100 example_heap_200 moved_heap_7 moved_heap_3 nth_Cons'
      less_Suc_eq numeral_2_eq_2)

section \<open>The size of the set of all positive ints\<close>

lemma positive_ints_image: "positive_ints = word_of_nat ` {1..2147483647}"
proof (intro set_eqI iffI)
  fix x :: int32
  assume "x \<in> positive_ints"
  then have pos: "0 < sint x"
    by (simp add: positive_ints_def word_sless_alt)
  have up: "sint x < 2147483648"
    using sint_less [of x] by simp
  have "x = word_of_int (sint x)"
    by simp
  also have "\<dots> = word_of_nat (nat (sint x))"
    using pos by simp
  finally have "x = word_of_nat (nat (sint x))" .
  moreover have "nat (sint x) \<in> {1..2147483647}"
    using pos up by auto
  ultimately show "x \<in> word_of_nat ` {1..2147483647}"
    by (rule image_eqI)
next
  fix x :: int32
  assume "x \<in> word_of_nat ` {1..2147483647}"
  then obtain n :: nat where x: "x = word_of_nat n" and n: "1 \<le> n" "n \<le> 2147483647"
    by auto
  have "sint (word_of_int (int n) :: int32) = int n"
    using n by (intro sint_of_int_small) simp_all
  with x n show "x \<in> positive_ints"
    by (simp add: positive_ints_def word_sless_alt)
qed

lemma card_positive_ints: "card positive_ints = 2147483647"
proof -
  have "inj_on (word_of_nat :: nat \<Rightarrow> int32) {0..<2 ^ LENGTH(32)}"
    by (rule inj_on_word_of_nat)
  moreover have "{1..2147483647 :: nat} \<subseteq> {0..<2 ^ LENGTH(32)}"
    by auto
  ultimately have "inj_on (word_of_nat :: nat \<Rightarrow> int32) {1..2147483647}"
    by (rule inj_on_subset)
  then have "card ((word_of_nat :: nat \<Rightarrow> int32) ` {1..2147483647}) = card {1..2147483647 :: nat}"
    by (rule card_image)
  then show ?thesis
    by (simp add: positive_ints_image)
qed

section \<open>C1: the selection step\<close>

text \<open>
  C1. When the pool is not empty and the remaining set has fewer than \<open>INT_MAX\<close> elements
  (the program builds from the 32 identifiers of \<open>characters\<close>), the score that the loop
  compares for a record is the absolute difference of the sizes of the two intersections,
  and the record selected is the first of the pool with the least score: every record before
  it has a strictly greater score, and no record after it has a smaller one, so a tie keeps
  the earlier record.
\<close>

theorem select_best_first_minimum:
  assumes "questions \<noteq> []" and "card remaining_ids < 2147483647"
  shows "\<exists>pre best post. questions = pre @ best # post \<and>
      select_best H remaining_ids questions = Some best \<and>
      (\<forall>q \<in> set questions.
         sint (difference remaining_ids (H q)) = balance_score remaining_ids (H q)) \<and>
      (\<forall>x \<in> set pre. balance_score remaining_ids (H best) < balance_score remaining_ids (H x)) \<and>
      (\<forall>x \<in> set post. balance_score remaining_ids (H best) \<le> balance_score remaining_ids (H x))"
proof -
  have score: "sint (difference remaining_ids q) = balance_score remaining_ids q" for q
    using assms(2) by (intro sint_difference) simp
  from select_best_split [OF assms, of H]
  obtain pre best post where "questions = pre @ best # post"
    and "select_best H remaining_ids questions = Some best"
    and "\<forall>x \<in> set pre. difference remaining_ids (H best) <s difference remaining_ids (H x)"
    and "\<forall>x \<in> set post. \<not> difference remaining_ids (H x) <s difference remaining_ids (H best)"
    by blast
  then have "questions = pre @ best # post \<and>
      select_best H remaining_ids questions = Some best \<and>
      (\<forall>q \<in> set questions.
         sint (difference remaining_ids (H q)) = balance_score remaining_ids (H q)) \<and>
      (\<forall>x \<in> set pre. balance_score remaining_ids (H best) < balance_score remaining_ids (H x)) \<and>
      (\<forall>x \<in> set post. balance_score remaining_ids (H best) \<le> balance_score remaining_ids (H x))"
    unfolding word_sless_alt score not_less by blast
  then show ?thesis by blast
qed

theorem select_best_first_minimum_witness:
  "[100, 200] \<noteq> ([] :: ptr list) \<and> card {1, 2, 3 :: int32} < 2147483647 \<and>
   select_best example_heap {1, 2, 3} [100, 200] = Some 100 \<and>
   sint (difference {1, 2, 3} (example_heap 100)) = balance_score {1, 2, 3} (example_heap 100) \<and>
   sint (difference {1, 2, 3} (example_heap 200)) = balance_score {1, 2, 3} (example_heap 200) \<and>
   balance_score {1, 2, 3} (example_heap 100) \<le> balance_score {1, 2, 3} (example_heap 200)"
proof -
  have ne: "[100, 200] \<noteq> ([] :: ptr list)" and c: "card {1, 2, 3 :: int32} < 2147483647"
    by simp_all
  from select_best_first_minimum [OF ne c, of example_heap]
  obtain pre best post where split: "[100, 200 :: ptr] = pre @ best # post"
    and best: "select_best example_heap {1, 2, 3} [100, 200] = Some best"
    and score: "\<forall>q \<in> set [100, 200].
         sint (difference {1, 2, 3} (example_heap q)) = balance_score {1, 2, 3} (example_heap q)"
    and pre: "\<forall>x \<in> set pre. balance_score {1, 2, 3} (example_heap best) < balance_score {1, 2, 3} (example_heap x)"
    and post: "\<forall>x \<in> set post. balance_score {1, 2, 3} (example_heap best) \<le> balance_score {1, 2, 3} (example_heap x)"
    by blast
  have eq: "balance_score {1, 2, 3} (example_heap 100) = balance_score {1, 2, 3} (example_heap 200)"
    by (simp add: balance_score_def example_heap_def new_Question_def)
  have "best = 100"
  proof (cases pre)
    case Nil
    with split show ?thesis by simp
  next
    case (Cons a pre')
    with split have "a = 100" and "best \<in> set [100, 200]"
      by (auto simp: Cons_eq_append_conv)
    with pre Cons eq show ?thesis by auto
  qed
  with best have "select_best example_heap {1, 2, 3} [100, 200] = Some 100"
    by simp
  moreover from score have
    "sint (difference {1, 2, 3} (example_heap 100)) = balance_score {1, 2, 3} (example_heap 100)"
    "sint (difference {1, 2, 3} (example_heap 200)) = balance_score {1, 2, 3} (example_heap 200)"
    by simp_all
  ultimately show ?thesis
    using ne c eq by simp
qed

section \<open>C2: the terminal cases and their order\<close>

text \<open>
  C2. A remaining set of size 1 gives the leaf (id -1, no children, empty sets) whose text
  is \<open>Character identified: \<close> followed by the decimal form of the single identifier,
  whatever the pool is, the empty pool included; a remaining set of any other size with
  the empty pool gives the leaf with the text \<open>No more questions. Unable to identify.\<close>
\<close>

theorem buildTree_terminal_cases:
  "(card remaining_ids = 1 \<longrightarrow>
      (\<exists>x. remaining_ids = {x} \<and>
         buildTree H remaining_ids questions =
           Question (- 1) (''Character identified: '' @ to_string (sint x)) {} {} None None \<and>
         buildTree H remaining_ids [] =
           Question (- 1) (''Character identified: '' @ to_string (sint x)) {} {} None None)) \<and>
   (card remaining_ids \<noteq> 1 \<longrightarrow>
      buildTree H remaining_ids [] =
        Question (- 1) ''No more questions. Unable to identify.'' {} {} None None)"
proof (intro conjI impI)
  assume "card remaining_ids = 1"
  then obtain x where "remaining_ids = {x}"
    by (auto simp: card_1_singleton_iff)
  then show "\<exists>x. remaining_ids = {x} \<and>
         buildTree H remaining_ids questions =
           Question (- 1) (''Character identified: '' @ to_string (sint x)) {} {} None None \<and>
         buildTree H remaining_ids [] =
           Question (- 1) (''Character identified: '' @ to_string (sint x)) {} {} None None"
    by (simp add: buildTree_single)
next
  assume "card remaining_ids \<noteq> 1"
  then show "buildTree H remaining_ids [] =
        Question (- 1) ''No more questions. Unable to identify.'' {} {} None None"
    by (rule buildTree_no_questions)
qed

theorem buildTree_terminal_cases_witness:
  "card {7 :: int32} = 1 \<and>
   buildTree example_heap {7} [100, 200] =
     Question (- 1) ''Character identified: 7'' {} {} None None \<and>
   buildTree example_heap {7} [] =
     Question (- 1) ''Character identified: 7'' {} {} None None \<and>
   card {1, 2 :: int32} \<noteq> 1 \<and>
   buildTree example_heap {1, 2} [] =
     Question (- 1) ''No more questions. Unable to identify.'' {} {} None None"
proof -
  have s: "to_string (sint (7 :: int32)) = ''7''"
    by (simp add: to_string_def digit_char_def)
  have c1: "card {7 :: int32} = 1" and c2: "card {1, 2 :: int32} \<noteq> 1"
    by simp_all
  from buildTree_terminal_cases [of "{7}" example_heap "[100, 200]"] c1 s
  have "buildTree example_heap {7} [100, 200] =
     Question (- 1) ''Character identified: 7'' {} {} None None \<and>
   buildTree example_heap {7} [] =
     Question (- 1) ''Character identified: 7'' {} {} None None"
    by auto
  moreover from buildTree_terminal_cases [of "{1, 2}" example_heap "[]"] c2
  have "buildTree example_heap {1, 2} [] =
     Question (- 1) ''No more questions. Unable to identify.'' {} {} None None"
    by blast
  ultimately show ?thesis using c1 c2 by blast
qed

section \<open>C3: the internal node\<close>

text \<open>
  C3. In a step that is not terminal (the remaining set is not a singleton, the pool is
  not empty and the loop selected \<open>best\<close>), the node carries the id, the text and the full
  positive and negative sets of the selected record, its children are the trees built from
  the intersections of the remaining set with those sets, both over the pool without
  every pointer equal to \<open>best\<close>; and in every tree that \<open>buildTree\<close> returns a node has
  either no child or both.
\<close>

theorem buildTree_internal_node:
  assumes "card remaining_ids \<noteq> 1" and "questions \<noteq> []"
    and "select_best H remaining_ids questions = Some best"
  shows "buildTree H remaining_ids questions =
     Question (q_id (H best)) (q_text (H best)) (positive_ids (H best)) (negative_ids (H best))
       (Some (buildTree H (remaining_ids \<inter> positive_ids (H best))
          (filter (\<lambda>q. q \<noteq> best) questions)))
       (Some (buildTree H (remaining_ids \<inter> negative_ids (H best))
          (filter (\<lambda>q. q \<noteq> best) questions))) \<and>
     remaining_questions best questions = filter (\<lambda>q. q \<noteq> best) questions \<and>
     best \<in> set questions \<and>
     both_children (buildTree H remaining_ids questions)"
  using buildTree_node [OF assms] select_best_mem [OF assms(3)]
    both_children_buildTree [of H remaining_ids questions]
  by (simp add: remaining_questions_def)

theorem buildTree_internal_node_witness:
  "card {1, 2, 3 :: int32} \<noteq> 1 \<and> [100, 200] \<noteq> ([] :: ptr list) \<and>
   select_best example_heap {1, 2, 3} [100, 200] = Some 100 \<and>
   buildTree example_heap {1, 2, 3} [100, 200] =
     Question 1 ''Is it the first?'' {1} {2, 3}
       (Some (Question (- 1) ''Character identified: 1'' {} {} None None))
       (Some (Question 2 ''Is it the second?'' {2} {1, 3}
          (Some (Question (- 1) ''Character identified: 2'' {} {} None None))
          (Some (Question (- 1) ''Character identified: 3'' {} {} None None)))) \<and>
   remaining_questions 100 [100, 200] = [200] \<and>
   100 \<in> set [100, 200 :: ptr] \<and>
   both_children (buildTree example_heap {1, 2, 3} [100, 200])"
proof -
  have c: "card {1, 2, 3 :: int32} \<noteq> 1" and ne: "[100, 200] \<noteq> ([] :: ptr list)"
    by simp_all
  have f: "filter (\<lambda>q. q \<noteq> 100) [100, 200 :: ptr] = [200]"
    by simp
  have i: "{1, 2, 3} \<inter> {1} = {1 :: int32}" "{1, 2, 3} \<inter> {2, 3} = {2, 3 :: int32}"
    by auto
  from buildTree_internal_node [OF c ne select_best_example_first]
  have tree: "buildTree example_heap {1, 2, 3} [100, 200] =
     Question 1 ''Is it the first?'' {1} {2, 3}
       (Some (buildTree example_heap {1} [200])) (Some (buildTree example_heap {2, 3} [200]))"
    and rq: "remaining_questions 100 [100, 200] = [200]"
    and bc: "both_children (buildTree example_heap {1, 2, 3} [100, 200])"
    unfolding example_heap_100 Question.sel f i by blast+
  from tree have "buildTree example_heap {1, 2, 3} [100, 200] =
     Question 1 ''Is it the first?'' {1} {2, 3}
       (Some (Question (- 1) ''Character identified: 1'' {} {} None None))
       (Some (Question 2 ''Is it the second?'' {2} {1, 3}
          (Some (Question (- 1) ''Character identified: 2'' {} {} None None))
          (Some (Question (- 1) ''Character identified: 3'' {} {} None None))))"
    by (simp add: buildTree_single buildTree_example_second to_string_examples)
  with c ne select_best_example_first rq bc show ?thesis
    by simp
qed

section \<open>C4: applying an answer\<close>

text \<open>
  C4. In a session whose \<open>root\<close> points to a node \<open>n\<close> (an internal node or a leaf),
  \<open>setAnswer(true)\<close> removes the negative set of \<open>n\<close> from \<open>characters\<close> and moves
  \<open>root\<close> to the left child of \<open>n\<close>; \<open>setAnswer(false)\<close> removes the positive set of \<open>n\<close>
  and moves \<open>root\<close> to its right child. The sets removed are those of \<open>n\<close>, the root before
  the move, not those of the child.
\<close>

theorem setAnswer_current_root:
  assumes "root s = Some n"
  shows "setAnswer True s = Some \<lparr>root = left n, characters = characters s - negative_ids n\<rparr> \<and>
     setAnswer False s = Some \<lparr>root = right n, characters = characters s - positive_ids n\<rparr>"
  using assms by (cases s) (simp add: setAnswer_def)

theorem setAnswer_current_root_witness:
  "root example_session = Some (buildTree example_heap {1, 2, 3} [100, 200]) \<and>
   setAnswer True example_session =
     Some \<lparr>root = Some (Question (- 1) ''Character identified: 1'' {} {} None None),
           characters = {1}\<rparr> \<and>
   setAnswer False example_session =
     Some \<lparr>root = Some (Question 2 ''Is it the second?'' {2} {1, 3}
          (Some (Question (- 1) ''Character identified: 2'' {} {} None None))
          (Some (Question (- 1) ''Character identified: 3'' {} {} None None))),
           characters = {2, 3}\<rparr>"
proof -
  have r: "root example_session = Some (buildTree example_heap {1, 2, 3} [100, 200])"
    by (simp add: example_session_def)
  have d: "{1, 2, 3} - {2, 3} = {1 :: int32}" "{1, 2, 3} - {1} = {2, 3 :: int32}"
    by auto
  have ch: "characters example_session = {1, 2, 3}"
    by (simp add: example_session_def)
  from setAnswer_current_root [OF r] r show ?thesis
    unfolding ch buildTree_example Question.sel d by simp
qed

section \<open>C5: the candidates only shrink\<close>

text \<open>
  C5. A new session starts with \<open>characters\<close> equal to the set of all identifiers. Every
  call of \<open>setAnswer\<close> that returns leaves a subset of the set it found, from any state, and
  so does every sequence of such calls: the number of candidates never grows.
\<close>

theorem characters_only_shrink:
  "characters (new_QuestionTree H questions) = characters_init \<and>
   (setAnswer a s = Some s' \<longrightarrow>
      characters s' \<subseteq> characters s \<and> card (characters s') \<le> card (characters s)) \<and>
   (setAnswers as s = Some s'' \<longrightarrow>
      characters s'' \<subseteq> characters s \<and> card (characters s'') \<le> card (characters s))"
proof (intro conjI impI)
  show "characters (new_QuestionTree H questions) = characters_init"
    by (simp add: new_QuestionTree_def)
next
  assume "setAnswer a s = Some s'"
  then show sub: "characters s' \<subseteq> characters s"
    by (rule setAnswer_subset)
  show "card (characters s') \<le> card (characters s)"
    using sub by (intro card_mono) simp_all
next
  assume "setAnswers as s = Some s''"
  then show sub: "characters s'' \<subseteq> characters s"
    by (rule setAnswers_subset)
  show "card (characters s'') \<le> card (characters s)"
    using sub by (intro card_mono) simp_all
qed

theorem characters_only_shrink_witness:
  "characters (new_QuestionTree example_heap [100, 200]) = characters_init \<and>
   setAnswer False example_session =
     Some \<lparr>root = Some (Question 2 ''Is it the second?'' {2} {1, 3}
          (Some (Question (- 1) ''Character identified: 2'' {} {} None None))
          (Some (Question (- 1) ''Character identified: 3'' {} {} None None))),
           characters = {2, 3}\<rparr> \<and>
   {2, 3} \<subseteq> characters example_session \<and>
   card {2, 3 :: int32} \<le> card (characters example_session) \<and>
   setAnswers [False, True] example_session =
     Some \<lparr>root = Some (Question (- 1) ''Character identified: 2'' {} {} None None),
           characters = {2}\<rparr> \<and>
   {2} \<subseteq> characters example_session \<and>
   card {2 :: int32} \<le> card (characters example_session)"
proof -
  let ?no = "\<lparr>root = Some (Question 2 ''Is it the second?'' {2} {1, 3}
          (Some (Question (- 1) ''Character identified: 2'' {} {} None None))
          (Some (Question (- 1) ''Character identified: 3'' {} {} None None))),
           characters = {2, 3 :: int32}\<rparr>"
  let ?no_yes = "\<lparr>root = Some (Question (- 1) ''Character identified: 2'' {} {} None None),
           characters = {2 :: int32}\<rparr>"
  from characters_only_shrink [of example_heap "[100, 200]" False example_session ?no
      "[False, True]" ?no_yes]
    setAnswer_example_no setAnswers_example_no_yes
  show ?thesis by simp
qed

section \<open>C6: the result of a session\<close>

text \<open>
  C6, as the code has it. With one candidate left \<open>getCharacter\<close> looks that identifier
  up in the characters file; with none left it looks the fixed identifier 0 up in the same
  file, so the result is the record of the id 0 or the exception of the lookup.
\<close>

theorem getCharacter_by_size:
  "(card (characters s) = 1 \<longrightarrow>
      (\<exists>x. characters s = {x} \<and>
         getCharacter file s = lookup_result (readCharacterByID file x))) \<and>
   (card (characters s) = 0 \<longrightarrow>
      getCharacter file s = lookup_result (readCharacterByID file 0))"
proof (intro conjI impI)
  assume "card (characters s) = 1"
  then obtain x where "characters s = {x}"
    by (auto simp: card_1_singleton_iff)
  then have "characters s = {x} \<and>
      getCharacter file s = lookup_result (readCharacterByID file x)"
    by (simp add: getCharacter_def set_begin_single)
  then show "\<exists>x. characters s = {x} \<and>
      getCharacter file s = lookup_result (readCharacterByID file x)"
    by blast
next
  assume "card (characters s) = 0"
  then show "getCharacter file s = lookup_result (readCharacterByID file 0)"
    by (simp add: getCharacter_def)
qed

theorem getCharacter_by_size_witness:
  "card (characters \<lparr>root = None, characters = {1}\<rparr>) = 1 \<and>
   getCharacter example_file \<lparr>root = None, characters = {1}\<rparr> =
     Returns (Character 1 ''Mickey'' ''mickey.png'') \<and>
   card (characters \<lparr>root = None, characters = {}\<rparr>) = 0 \<and>
   getCharacter example_file \<lparr>root = None, characters = {}\<rparr> =
     Returns (Character 0 ''Unknown'' ''unknown.png'')"
proof -
  have l: "lookup_result (readCharacterByID example_file 1) =
      Returns (Character 1 ''Mickey'' ''mickey.png'')"
    "lookup_result (readCharacterByID example_file 0) =
      Returns (Character 0 ''Unknown'' ''unknown.png'')"
    by (simp_all add: lookup_result_def readCharacterByID_def example_file_def)
  from getCharacter_by_size [of "\<lparr>root = None, characters = {1}\<rparr>" example_file]
    getCharacter_by_size [of "\<lparr>root = None, characters = {}\<rparr>" example_file] l
  show ?thesis by simp
qed

text \<open>
  The claim as stated fails on the example file: with no candidate left the result is the
  character record of the id 0, the same result as for the single candidate 0, and not an
  outcome of its own.
\<close>

theorem getCharacter_exhausted_counterexample:
  "getCharacter example_file \<lparr>root = None, characters = {}\<rparr> =
     Returns (Character 0 ''Unknown'' ''unknown.png'') \<and>
   getCharacter example_file \<lparr>root = None, characters = {}\<rparr> =
     getCharacter example_file \<lparr>root = None, characters = {0}\<rparr>"
  by (simp add: getCharacter_def lookup_result_def readCharacterByID_def example_file_def
      set_begin_single)

section \<open>C7: the empty remaining set\<close>

text \<open>
  C7, as the code has it. \<open>buildTree\<close> has no terminal case for the empty remaining set.
  With the empty pool it returns the leaf \<open>No more questions. Unable to identify.\<close>; with
  a pool that is not empty every score is 0, the first record of the pool is selected, and
  the result is an internal node with that record's data whose two children are built from
  the empty set over the rest of the pool.
\<close>

theorem buildTree_empty_remaining:
  "buildTree H {} [] = Question (- 1) ''No more questions. Unable to identify.'' {} {} None None \<and>
   select_best H {} (q # qs) = Some q \<and>
   buildTree H {} (q # qs) =
     Question (q_id (H q)) (q_text (H q)) (positive_ids (H q)) (negative_ids (H q))
       (Some (buildTree H {} (filter (\<lambda>p. p \<noteq> q) qs)))
       (Some (buildTree H {} (filter (\<lambda>p. p \<noteq> q) qs)))"
proof -
  have "card ({} :: int32 set) \<noteq> 1" by simp
  moreover have "q # qs \<noteq> []" by simp
  ultimately have "buildTree H {} (q # qs) =
     Question (q_id (H q)) (q_text (H q)) (positive_ids (H q)) (negative_ids (H q))
       (Some (buildTree H ({} \<inter> positive_ids (H q)) (remaining_questions q (q # qs))))
       (Some (buildTree H ({} \<inter> negative_ids (H q)) (remaining_questions q (q # qs))))"
    using select_best_empty by (rule buildTree_node)
  then show ?thesis
    by (simp add: buildTree_no_questions select_best_empty remaining_questions_def)
qed

text \<open>
  The claim as stated fails on the example: from the empty set and a pool of one record the
  result is a node with the record's question and two children, not a leaf.
\<close>

theorem buildTree_empty_remaining_counterexample:
  "buildTree example_heap {} [100] =
     Question 1 ''Is it the first?'' {1} {2, 3}
       (Some (Question (- 1) ''No more questions. Unable to identify.'' {} {} None None))
       (Some (Question (- 1) ''No more questions. Unable to identify.'' {} {} None None))"
proof -
  have "card ({} :: int32 set) \<noteq> 1" by simp
  moreover have "[100 :: ptr] \<noteq> []" by simp
  ultimately have "buildTree example_heap {} [100] =
     Question (q_id (example_heap 100)) (q_text (example_heap 100))
       (positive_ids (example_heap 100)) (negative_ids (example_heap 100))
       (Some (buildTree example_heap ({} \<inter> positive_ids (example_heap 100)) (remaining_questions 100 [100])))
       (Some (buildTree example_heap ({} \<inter> negative_ids (example_heap 100)) (remaining_questions 100 [100])))"
    using select_best_empty by (rule buildTree_node)
  then show ?thesis
    by (simp add: buildTree_no_questions remaining_questions_def example_heap_def new_Question_def)
qed

section \<open>C8: the tree depends on the records only\<close>

text \<open>
  C8. \<open>buildTree\<close> is a function of the remaining set and of the records of the pool in
  their order: two calls with the same remaining set, on pools that hold the same records
  in the same order, return the same tree, whatever the addresses of the records and
  whatever else the heaps hold. Every pool holds the same records as itself.
\<close>

theorem buildTree_deterministic:
  "same_pool H questions H questions \<and>
   (same_pool H questions H' questions' \<longrightarrow>
      buildTree H remaining_ids questions = buildTree H' remaining_ids questions')"
proof (intro conjI impI)
  show "same_pool H questions H questions"
    by (simp add: same_pool_def)
next
  assume "same_pool H questions H' questions'"
  from same_pool_paired [OF this]
  show "buildTree H remaining_ids questions = buildTree H' remaining_ids questions'"
    by (simp add: buildTree_paired)
qed

theorem buildTree_deterministic_witness:
  "same_pool example_heap [100, 200] moved_heap [7, 3] \<and>
   buildTree moved_heap {1, 2, 3} [7, 3] =
     Question 1 ''Is it the first?'' {1} {2, 3}
       (Some (Question (- 1) ''Character identified: 1'' {} {} None None))
       (Some (Question 2 ''Is it the second?'' {2} {1, 3}
          (Some (Question (- 1) ''Character identified: 2'' {} {} None None))
          (Some (Question (- 1) ''Character identified: 3'' {} {} None None))))"
  using buildTree_deterministic [of example_heap "[100, 200]" moved_heap "[7, 3]" "{1, 2, 3}"]
    same_pool_example buildTree_example
  by simp

section \<open>C9: the loop always selects\<close>

text \<open>
  C9. When the pool is not empty and the remaining set has fewer than \<open>INT_MAX\<close> elements
  (it is a subset of the 32 identifiers of \<open>characters\<close> in every call the program makes),
  every score computed is a non-negative \<open>int\<close> below \<open>INT_MAX\<close>, the loop leaves
  \<open>best_question\<close> set, and no leaf of the tree built is the leaf
  \<open>Unable to further differentiate.\<close>
\<close>

theorem select_best_always_selects:
  assumes "questions \<noteq> []" and "card remaining_ids < 2147483647"
  shows "select_best H remaining_ids questions \<noteq> None \<and>
     (\<forall>q \<in> set questions.
        0 \<le> sint (difference remaining_ids (H q)) \<and> difference remaining_ids (H q) <s INT_MAX) \<and>
     new_Question (- 1) ''Unable to further differentiate.'' {} {}
       \<notin> set (leaves (buildTree H remaining_ids questions))"
proof (intro conjI ballI)
  from select_best_split [OF assms, of H]
  show "select_best H remaining_ids questions \<noteq> None"
    by auto
next
  fix q
  have "sint (difference remaining_ids (H q)) = balance_score remaining_ids (H q)"
    using assms(2) by (intro sint_difference) simp
  then show "0 \<le> sint (difference remaining_ids (H q))"
    by (simp add: balance_score_def)
next
  fix q
  show "difference remaining_ids (H q) <s INT_MAX"
    using assms(2) by (rule difference_less_INT_MAX)
next
  show "new_Question (- 1) ''Unable to further differentiate.'' {} {}
       \<notin> set (leaves (buildTree H remaining_ids questions))"
    using leaves_buildTree [OF assms(2), of _ H questions]
    by (auto simp: new_Question_def)
qed

theorem select_best_always_selects_witness:
  "[100, 200] \<noteq> ([] :: ptr list) \<and> card characters_init < 2147483647 \<and>
   select_best example_heap characters_init [100, 200] \<noteq> None \<and>
   0 \<le> sint (difference characters_init (example_heap 100)) \<and>
   difference characters_init (example_heap 100) <s INT_MAX \<and>
   0 \<le> sint (difference characters_init (example_heap 200)) \<and>
   difference characters_init (example_heap 200) <s INT_MAX \<and>
   new_Question (- 1) ''Unable to further differentiate.'' {} {}
     \<notin> set (leaves (buildTree example_heap characters_init [100, 200]))"
proof -
  have ne: "[100, 200] \<noteq> ([] :: ptr list)" by simp
  have c: "card characters_init < 2147483647"
    by (simp add: card_characters_init)
  from select_best_always_selects [OF ne c, of example_heap] ne c show ?thesis
    by simp
qed

section \<open>C10: termination\<close>

text \<open>
  C10. \<open>buildTree\<close> is a total function: its recursion is well-founded on the length of
  the pool, for every remaining set, the empty one included. A call on a singleton
  remaining set or on the empty pool returns a leaf without recursing. Every other call in
  which the loop selects a record returns the node of that record, whose children are the
  results of the two recursive calls, and both calls receive the pool without the selected
  record: the pool filtered by pointer inequality, which loses the record that was in it,
  is strictly shorter, and is shorter by exactly one when the pointers of the pool are
  pairwise distinct. So no path of the tree built has more nodes with children than the
  pool has entries. When the remaining set has fewer than \<open>INT_MAX\<close> elements, every leaf
  of the tree is the leaf of a singleton remaining set or the leaf of the empty pool.
\<close>

theorem buildTree_terminates_within_pool:
  "depth (buildTree H remaining_ids questions) \<le> length questions \<and>
   (card remaining_ids = 1 \<or> questions = [] \<longrightarrow>
      left (buildTree H remaining_ids questions) = None \<and>
      right (buildTree H remaining_ids questions) = None \<and>
      depth (buildTree H remaining_ids questions) = 0) \<and>
   (select_best H remaining_ids questions = Some best \<longrightarrow>
      best \<in> set questions \<and>
      remaining_questions best questions = filter (\<lambda>q. q \<noteq> best) questions \<and>
      set (remaining_questions best questions) = set questions - {best} \<and>
      length (remaining_questions best questions) < length questions \<and>
      (distinct questions \<longrightarrow>
         length (remaining_questions best questions) = length questions - 1) \<and>
      (card remaining_ids \<noteq> 1 \<and> questions \<noteq> [] \<longrightarrow>
         buildTree H remaining_ids questions =
           Question (q_id (H best)) (q_text (H best))
             (positive_ids (H best)) (negative_ids (H best))
             (Some (buildTree H (remaining_ids \<inter> positive_ids (H best))
                (remaining_questions best questions)))
             (Some (buildTree H (remaining_ids \<inter> negative_ids (H best))
                (remaining_questions best questions))))) \<and>
   (card remaining_ids < 2147483647 \<longrightarrow>
      (\<forall>t \<in> set (leaves (buildTree H remaining_ids questions)).
         (\<exists>x \<in> remaining_ids. t = Question (- 1) (''Character identified: '' @ to_string (sint x)) {} {} None None) \<or>
         t = Question (- 1) ''No more questions. Unable to identify.'' {} {} None None))"
proof -
  have bound: "depth (buildTree H remaining_ids questions) \<le> length questions"
    by (rule depth_buildTree)
  have terminal: "left (buildTree H remaining_ids questions) = None \<and>
      right (buildTree H remaining_ids questions) = None \<and>
      depth (buildTree H remaining_ids questions) = 0"
    if "card remaining_ids = 1 \<or> questions = []"
  proof (cases "card remaining_ids = 1")
    case True
    then obtain x where "remaining_ids = {x}"
      by (auto simp: card_1_singleton_iff)
    then show ?thesis
      by (simp add: buildTree_single)
  next
    case False
    with that have "questions = []" by simp
    with False show ?thesis
      by (simp add: buildTree_no_questions)
  qed
  have step: "best \<in> set questions \<and>
      remaining_questions best questions = filter (\<lambda>q. q \<noteq> best) questions \<and>
      set (remaining_questions best questions) = set questions - {best} \<and>
      length (remaining_questions best questions) < length questions \<and>
      (distinct questions \<longrightarrow>
         length (remaining_questions best questions) = length questions - 1) \<and>
      (card remaining_ids \<noteq> 1 \<and> questions \<noteq> [] \<longrightarrow>
         buildTree H remaining_ids questions =
           Question (q_id (H best)) (q_text (H best))
             (positive_ids (H best)) (negative_ids (H best))
             (Some (buildTree H (remaining_ids \<inter> positive_ids (H best))
                (remaining_questions best questions)))
             (Some (buildTree H (remaining_ids \<inter> negative_ids (H best))
                (remaining_questions best questions))))"
    if sel: "select_best H remaining_ids questions = Some best"
  proof (intro conjI impI)
    from sel show mem: "best \<in> set questions"
      by (rule select_best_mem)
    then show "length (remaining_questions best questions) < length questions"
      by (rule length_remaining_questions)
    show "remaining_questions best questions = filter (\<lambda>q. q \<noteq> best) questions"
      by (simp add: remaining_questions_def)
    show "set (remaining_questions best questions) = set questions - {best}"
      by (auto simp: remaining_questions_def)
    show "length (remaining_questions best questions) = length questions - 1"
      if "distinct questions"
      using mem that by (rule length_remaining_questions_distinct)
    show "buildTree H remaining_ids questions =
           Question (q_id (H best)) (q_text (H best))
             (positive_ids (H best)) (negative_ids (H best))
             (Some (buildTree H (remaining_ids \<inter> positive_ids (H best))
                (remaining_questions best questions)))
             (Some (buildTree H (remaining_ids \<inter> negative_ids (H best))
                (remaining_questions best questions)))"
      if "card remaining_ids \<noteq> 1 \<and> questions \<noteq> []"
      using that sel by (intro buildTree_node) simp_all
  qed
  have leaf: "(\<exists>x \<in> remaining_ids. t = Question (- 1) (''Character identified: '' @ to_string (sint x)) {} {} None None) \<or>
         t = Question (- 1) ''No more questions. Unable to identify.'' {} {} None None"
    if "card remaining_ids < 2147483647"
      and "t \<in> set (leaves (buildTree H remaining_ids questions))" for t
    using that by (rule leaves_buildTree)
  from bound terminal step leaf show ?thesis
    by blast
qed

theorem buildTree_terminates_within_pool_witness:
  "depth (buildTree example_heap {} [100, 200]) \<le> length [100, 200 :: ptr] \<and>
   depth (buildTree example_heap {1, 2, 3} [100, 200]) \<le> length [100, 200 :: ptr] \<and>
   card {7 :: int32} = 1 \<and>
   left (buildTree example_heap {7} [100, 200]) = None \<and>
   right (buildTree example_heap {7} [100, 200]) = None \<and>
   depth (buildTree example_heap {7} [100, 200]) = 0 \<and>
   select_best example_heap {1, 2, 3} [100, 200] = Some 100 \<and>
   (100 :: ptr) \<in> set [100, 200] \<and>
   remaining_questions 100 [100, 200] = [200] \<and>
   set (remaining_questions 100 [100, 200]) = set [100, 200] - {100} \<and>
   length (remaining_questions 100 [100, 200]) < length [100, 200 :: ptr] \<and>
   distinct [100, 200 :: ptr] \<and>
   length (remaining_questions 100 [100, 200]) = length [100, 200 :: ptr] - 1 \<and>
   card {1, 2, 3 :: int32} \<noteq> 1 \<and> [100, 200] \<noteq> ([] :: ptr list) \<and>
   buildTree example_heap {1, 2, 3} [100, 200] =
     Question 1 ''Is it the first?'' {1} {2, 3}
       (Some (buildTree example_heap {1} [200]))
       (Some (buildTree example_heap {2, 3} [200])) \<and>
   card {1, 2, 3 :: int32} < 2147483647 \<and>
   set (leaves (buildTree example_heap {1, 2, 3} [100, 200])) \<subseteq>
     {t. (\<exists>x \<in> {1, 2, 3 :: int32}.
            t = Question (- 1) (''Character identified: '' @ to_string (sint x)) {} {} None None) \<or>
         t = Question (- 1) ''No more questions. Unable to identify.'' {} {} None None}"
proof -
  have d: "distinct [100, 200 :: ptr]" and c: "card {1, 2, 3 :: int32} < 2147483647"
    and c1: "card {1, 2, 3 :: int32} \<noteq> 1" and ne: "[100, 200] \<noteq> ([] :: ptr list)"
    and c7: "card {7 :: int32} = 1"
    by simp_all
  have f: "filter (\<lambda>q. q \<noteq> 100) [100, 200 :: ptr] = [200]"
    by simp
  have i: "{1, 2, 3} \<inter> {1} = {1 :: int32}" "{1, 2, 3} \<inter> {2, 3} = {2, 3 :: int32}"
    by auto
  from buildTree_terminates_within_pool [of example_heap "{}" "[100, 200]" 100]
  have empty: "depth (buildTree example_heap {} [100, 200]) \<le> length [100, 200 :: ptr]"
    by blast
  from buildTree_terminates_within_pool [of example_heap "{7}" "[100, 200]" 100] c7
  have single: "left (buildTree example_heap {7} [100, 200]) = None \<and>
   right (buildTree example_heap {7} [100, 200]) = None \<and>
   depth (buildTree example_heap {7} [100, 200]) = 0"
    by blast
  from buildTree_terminates_within_pool [of example_heap "{1, 2, 3}" "[100, 200]" 100]
    select_best_example_first d c c1 ne
  have main: "depth (buildTree example_heap {1, 2, 3} [100, 200]) \<le> length [100, 200 :: ptr] \<and>
   (100 :: ptr) \<in> set [100, 200] \<and>
   remaining_questions 100 [100, 200] = filter (\<lambda>q. q \<noteq> 100) [100, 200] \<and>
   set (remaining_questions 100 [100, 200]) = set [100, 200] - {100} \<and>
   length (remaining_questions 100 [100, 200]) < length [100, 200 :: ptr] \<and>
   length (remaining_questions 100 [100, 200]) = length [100, 200 :: ptr] - 1 \<and>
   buildTree example_heap {1, 2, 3} [100, 200] =
     Question (q_id (example_heap 100)) (q_text (example_heap 100))
       (positive_ids (example_heap 100)) (negative_ids (example_heap 100))
       (Some (buildTree example_heap ({1, 2, 3} \<inter> positive_ids (example_heap 100))
          (remaining_questions 100 [100, 200])))
       (Some (buildTree example_heap ({1, 2, 3} \<inter> negative_ids (example_heap 100))
          (remaining_questions 100 [100, 200]))) \<and>
   set (leaves (buildTree example_heap {1, 2, 3} [100, 200])) \<subseteq>
     {t. (\<exists>x \<in> {1, 2, 3 :: int32}.
            t = Question (- 1) (''Character identified: '' @ to_string (sint x)) {} {} None None) \<or>
         t = Question (- 1) ''No more questions. Unable to identify.'' {} {} None None}"
    by blast
  then have rq: "remaining_questions 100 [100, 200] = [200]"
    unfolding f by blast
  from main have tree: "buildTree example_heap {1, 2, 3} [100, 200] =
     Question 1 ''Is it the first?'' {1} {2, 3}
       (Some (buildTree example_heap {1} [200]))
       (Some (buildTree example_heap {2, 3} [200]))"
    unfolding rq example_heap_100 Question.sel i by blast
  from main empty single rq tree show ?thesis
    using select_best_example_first d c c1 ne c7 by blast
qed

section \<open>Further properties\<close>

text \<open>
  The tree that the constructor builds from the 32 identifiers of \<open>characters\<close> has, for
  every pool, only leaves of two kinds: the leaf that names one of those identifiers and the
  leaf of the exhausted pool.
\<close>

theorem constructor_tree_leaves:
  "set (leaves (buildTree H characters_init questions)) \<subseteq>
     {t. (\<exists>x \<in> characters_init.
            t = Question (- 1) (''Character identified: '' @ to_string (sint x)) {} {} None None) \<or>
         t = Question (- 1) ''No more questions. Unable to identify.'' {} {} None None}"
proof -
  have "card characters_init < 2147483647"
    by (simp add: card_characters_init)
  from leaves_buildTree [OF this, of _ H questions] show ?thesis
    by blast
qed

text \<open>
  The bound on the size of the remaining set in C1, C9 and C10 cannot be dropped. No call
  of the program comes near it, since the constructor passes the 32 identifiers of
  \<open>characters\<close> and the recursion passes subsets; but on the set of all \<open>INT_MAX\<close> positive
  ints and a pool of one question that holds of all of them, the score is \<open>INT_MAX\<close>
  itself, the comparison with the initial minimum fails, and \<open>buildTree\<close> returns the leaf
  \<open>Unable to further differentiate.\<close>
\<close>

theorem buildTree_unable_at_INT_MAX:
  "card positive_ints = 2147483647 \<and>
   select_best any_heap positive_ints [100] = None \<and>
   buildTree any_heap positive_ints [100] =
     Question (- 1) ''Unable to further differentiate.'' {} {} None None"
proof -
  have d: "difference positive_ints (any_heap 100) = INT_MAX"
    by (simp add: difference_def any_heap_def new_Question_def size_int_def abs_int_def
        card_positive_ints INT_MAX_def word_sless_alt)
  then have s: "select_best any_heap positive_ints [100] = None"
    by (simp add: select_best_def)
  have "card positive_ints \<noteq> 1" and "[100 :: ptr] \<noteq> []"
    by (simp_all add: card_positive_ints)
  from buildTree_unable [OF this s] s card_positive_ints show ?thesis
    by simp
qed

end
